theory Spec2Isabelle
  imports Complex_Main "HOL-Library.Word"
begin

section \<open>JavaScript strings\<close>

text \<open>
  A JavaScript string is a sequence of UTF-16 code units; the regular expressions of
  \<^verbatim>\<open>server.ts\<close> carry no \<^verbatim>\<open>u\<close> flag, so they work on code units as well.
  \<open>js\<close> reads an ASCII literal as such a string.
\<close>

type_synonym jschar = "16 word"
type_synonym jsstring = "jschar list"

definition js :: "string \<Rightarrow> jsstring" where
  "js s = map (\<lambda>c. word_of_nat (of_char c)) s"

text \<open>
  The class \<^verbatim>\<open>\s\<close> of a regular expression, which is also the set of code units that
  \<^verbatim>\<open>String.prototype.trim\<close> strips: WhiteSpace (TAB, VT, FF, SP, NBSP, ZWNBSP and the
  Unicode space separators) and LineTerminator (LF, CR, LS, PS).
\<close>

definition isSpace :: "jschar \<Rightarrow> bool" where
  "isSpace c \<longleftrightarrow>
     c \<in> {0x09, 0x0A, 0x0B, 0x0C, 0x0D, 0x20, 0xA0, 0x1680,
          0x2028, 0x2029, 0x202F, 0x205F, 0x3000, 0xFEFF}
     \<or> (0x2000 \<le> c \<and> c \<le> 0x200A)"

definition isLineTerminator :: "jschar \<Rightarrow> bool" where
  "isLineTerminator c \<longleftrightarrow> c \<in> {0x0A, 0x0D, 0x2028, 0x2029}"

text \<open>\<^verbatim>\<open>\d\<close>\<close>

definition isDigit :: "jschar \<Rightarrow> bool" where
  "isDigit c \<longleftrightarrow> 0x30 \<le> c \<and> c \<le> 0x39"

text \<open>\<^verbatim>\<open>[\x00-\x08\x0b\x0c\x0e-\x1f\x7f-\x9f]\<close>\<close>

definition isControl :: "jschar \<Rightarrow> bool" where
  "isControl c \<longleftrightarrow>
     c \<le> 0x08 \<or> c = 0x0B \<or> c = 0x0C \<or> (0x0E \<le> c \<and> c \<le> 0x1F) \<or> (0x7F \<le> c \<and> c \<le> 0x9F)"

text \<open>\<^verbatim>\<open>[.!?]\<close>\<close>

definition isSentenceEnd :: "jschar \<Rightarrow> bool" where
  "isSentenceEnd c \<longleftrightarrow> c \<in> {0x2E, 0x21, 0x3F}"

text \<open>\<^verbatim>\<open>[a-zA-Z0-9]\<close>\<close>

definition isAlnum :: "jschar \<Rightarrow> bool" where
  "isAlnum c \<longleftrightarrow>
     (0x61 \<le> c \<and> c \<le> 0x7A) \<or> (0x41 \<le> c \<and> c \<le> 0x5A) \<or> (0x30 \<le> c \<and> c \<le> 0x39)"

text \<open>\<^verbatim>\<open>s.trim()\<close>\<close>

definition trim :: "jsstring \<Rightarrow> jsstring" where
  "trim s = rev (dropWhile isSpace (rev (dropWhile isSpace s)))"

section \<open>cleanText\<close>

text \<open>
  \<^verbatim>\<open>cleanText\<close> is a chain of seven \<^verbatim>\<open>replace\<close> calls and a \<^verbatim>\<open>trim\<close>; each pass is
  one function here, in the order of the source.
\<close>

text \<open>\<^verbatim>\<open>.replace(/[\x00-\x08\x0b\x0c\x0e-\x1f\x7f-\x9f]/g, '')\<close>\<close>

definition removeControl :: "jsstring \<Rightarrow> jsstring" where
  "removeControl s = filter (\<lambda>c. \<not> isControl c) s"

text \<open>\<^verbatim>\<open>.replace(/[\u2018\u2019]/g, "'")\<close>\<close>

definition replaceSingleQuotes :: "jsstring \<Rightarrow> jsstring" where
  "replaceSingleQuotes s = map (\<lambda>c. if c = 0x2018 \<or> c = 0x2019 then 0x27 else c) s"

text \<open>\<^verbatim>\<open>.replace(/[\u201C\u201D]/g, '"')\<close>\<close>

definition replaceDoubleQuotes :: "jsstring \<Rightarrow> jsstring" where
  "replaceDoubleQuotes s = map (\<lambda>c. if c = 0x201C \<or> c = 0x201D then 0x22 else c) s"

text \<open>\<^verbatim>\<open>.replace(/[\u2013\u2014]/g, '-')\<close>\<close>

definition replaceDashes :: "jsstring \<Rightarrow> jsstring" where
  "replaceDashes s = map (\<lambda>c. if c = 0x2013 \<or> c = 0x2014 then 0x2D else c) s"

text \<open>\<^verbatim>\<open>.replace(/\u2026/g, '...')\<close>\<close>

definition replaceEllipsis :: "jsstring \<Rightarrow> jsstring" where
  "replaceEllipsis s = concat (map (\<lambda>c. if c = 0x2026 then [0x2E, 0x2E, 0x2E] else [c]) s)"

text \<open>\<^verbatim>\<open>.replace(/\s+/g, ' ')\<close>: every maximal run of white space becomes one space.\<close>

function collapseSpace :: "jsstring \<Rightarrow> jsstring" where
  "collapseSpace [] = []"
| "collapseSpace (c # cs) =
     (if isSpace c then 0x20 # collapseSpace (dropWhile isSpace cs)
      else c # collapseSpace cs)"
  by pat_completeness auto
termination
  by (relation "measure length") (auto simp: less_Suc_eq_le length_dropWhile_le)

text \<open>
  \<^verbatim>\<open>.replace(/^\d+\s*$/gm, '')\<close>. With the \<^verbatim>\<open>m\<close> flag, \<^verbatim>\<open>^\<close> holds at the start of
  the input and after a line terminator, \<^verbatim>\<open>$\<close> at the end of the input and before a
  line terminator. \<open>matchDigitLine s\<close> is the match of \<^verbatim>\<open>\d+\s*$\<close> at the start of
  \<open>s\<close>: the digits are taken greedily, then the white space, which backs off to the
  last line terminator of its run when the run does not reach the end of the input.
  The result is what follows the match, with whether the last matched code unit is a
  line terminator (the next attempt starts there).
\<close>

definition matchDigitLine :: "jsstring \<Rightarrow> (bool \<times> jsstring) option" where
  "matchDigitLine s =
     (let r = dropWhile isDigit s;
          w = takeWhile isSpace r;
          t = dropWhile isSpace r
      in if takeWhile isDigit s = [] then None
         else if t = [] then Some (False, [])
         else if \<exists>c \<in> set w. isLineTerminator c then
           (let k = length w - Suc (length (takeWhile (\<lambda>c. \<not> isLineTerminator c) (rev w)))
            in Some (k \<noteq> 0 \<and> isLineTerminator (w ! (k - 1)), drop k w @ t))
         else None)"

lemma matchDigitLine_shorter:
  assumes "matchDigitLine s = Some (b, rest)"
  shows "length rest < length s"
proof -
  let ?d = "takeWhile isDigit s"
  let ?r = "dropWhile isDigit s"
  let ?w = "takeWhile isSpace ?r"
  let ?t = "dropWhile isSpace ?r"
  from assms have d: "?d \<noteq> []"
    by (auto simp: matchDigitLine_def Let_def split: if_splits)
  have s: "s = ?d @ ?w @ ?t" by simp
  have len: "length s = length ?d + length ?w + length ?t"
    by (subst s) (simp only: length_append add.assoc)
  from assms have "length rest \<le> length ?w + length ?t"
    by (auto simp: matchDigitLine_def Let_def split: if_splits)
  with d len show ?thesis by (cases ?d) auto
qed

function stripDigitLines :: "bool \<Rightarrow> jsstring \<Rightarrow> jsstring" where
  "stripDigitLines atLineStart [] = []"
| "stripDigitLines atLineStart (c # cs) =
     (case (if atLineStart then matchDigitLine (c # cs) else None) of
        Some (b, rest) \<Rightarrow> stripDigitLines b rest
      | None \<Rightarrow> c # stripDigitLines (isLineTerminator c) cs)"
  by pat_completeness auto
termination
  by (relation "measure (\<lambda>(b, s). length s)")
     (auto split: if_splits dest: matchDigitLine_shorter)

definition cleanText :: "jsstring \<Rightarrow> jsstring" where
  "cleanText text =
     (if text = [] then []
      else trim (stripDigitLines True (collapseSpace (replaceEllipsis (replaceDashes
             (replaceDoubleQuotes (replaceSingleQuotes (removeControl text))))))))"

section \<open>splitIntoChunks\<close>

text \<open>
  \<^verbatim>\<open>text.split(/(?<=[.!?])\s+/)\<close>: a separator is a maximal run of white space whose
  first code unit follows a \<^verbatim>\<open>.\<close>, \<^verbatim>\<open>!\<close> or \<^verbatim>\<open>?\<close>. \<open>afterEnd\<close> says that the
  code unit before the current position is one of the three, \<open>acc\<close> is the piece
  read so far. The piece after the last separator is always returned, also when empty.
\<close>

function splitAux :: "bool \<Rightarrow> jsstring \<Rightarrow> jsstring \<Rightarrow> jsstring list" where
  "splitAux afterEnd acc [] = [acc]"
| "splitAux afterEnd acc (c # cs) =
     (if afterEnd \<and> isSpace c then acc # splitAux False [] (dropWhile isSpace cs)
      else splitAux (isSentenceEnd c) (acc @ [c]) cs)"
  by pat_completeness auto
termination
  by (relation "measure (\<lambda>(b, acc, s). length s)")
     (auto simp: less_Suc_eq_le length_dropWhile_le)

definition splitSentences :: "jsstring \<Rightarrow> jsstring list" where
  "splitSentences text = splitAux False [] text"

text \<open>
  The loop of \<^verbatim>\<open>splitIntoChunks\<close> over the sentences, with the statement after the
  loop as its base case. \<^verbatim>\<open>if (current)\<close> tests for the empty string.
\<close>

fun chunkLoop :: "int \<Rightarrow> jsstring list \<Rightarrow> jsstring \<Rightarrow> jsstring list \<Rightarrow> jsstring list" where
  "chunkLoop maxChars chunks current [] =
     (if trim current \<noteq> [] then chunks @ [trim current] else chunks)"
| "chunkLoop maxChars chunks current (sentence # rest) =
     (if int (length (current @ sentence)) < maxChars
      then chunkLoop maxChars chunks (current @ sentence @ [0x20]) rest
      else chunkLoop maxChars (if current \<noteq> [] then chunks @ [trim current] else chunks)
             (sentence @ [0x20]) rest)"

definition splitIntoChunks :: "jsstring \<Rightarrow> int \<Rightarrow> jsstring list" where
  "splitIntoChunks text maxChars = chunkLoop maxChars [] [] (splitSentences text)"

section \<open>Numbers\<close>

text \<open>
  A chunk index is what \<^verbatim>\<open>parseInt\<close> returns: \<^verbatim>\<open>NaN\<close> or an integer. (A JavaScript
  number is a double; integers are exact up to \<open>2 ^ 53\<close>, far beyond the length of an
  array, and \<^verbatim>\<open>-0\<close> behaves as \<^verbatim>\<open>0\<close> in every use below.)
\<close>

datatype jsnum = NaN | Num int

text \<open>\<^verbatim>\<open>index < k\<close> and \<^verbatim>\<open>index >= k\<close>: every comparison with \<^verbatim>\<open>NaN\<close> is false.\<close>

fun numLess :: "jsnum \<Rightarrow> int \<Rightarrow> bool" where
  "numLess NaN k = False"
| "numLess (Num i) k = (i < k)"

fun numGreaterEq :: "jsnum \<Rightarrow> int \<Rightarrow> bool" where
  "numGreaterEq NaN k = False"
| "numGreaterEq (Num i) k = (i \<ge> k)"

text \<open>The decimal digits of a natural number, and \<^verbatim>\<open>`${index}`\<close>.\<close>

definition digitChar :: "nat \<Rightarrow> jschar" where
  "digitChar d = word_of_nat (48 + d)"

function decimal :: "nat \<Rightarrow> jsstring" where
  "decimal n = (if n < 10 then [digitChar n] else decimal (n div 10) @ [digitChar (n mod 10)])"
  by pat_completeness auto
termination
  by (relation "measure id") auto

declare decimal.simps [simp del]

fun numToString :: "jsnum \<Rightarrow> jsstring" where
  "numToString NaN = js ''NaN''"
| "numToString (Num i) = (if i < 0 then 0x2D # decimal (nat (- i)) else decimal (nat i))"

text \<open>
  \<^verbatim>\<open>parseInt(string)\<close> with no radix: leading white space is skipped, one sign is read,
  a prefix \<^verbatim>\<open>0x\<close> or \<^verbatim>\<open>0X\<close> selects radix 16 (radix 10 otherwise), and the longest
  run of digits of the radix is the value; with no digit the result is \<^verbatim>\<open>NaN\<close>.
\<close>

definition isHexDigit :: "jschar \<Rightarrow> bool" where
  "isHexDigit c \<longleftrightarrow>
     (0x30 \<le> c \<and> c \<le> 0x39) \<or> (0x61 \<le> c \<and> c \<le> 0x66) \<or> (0x41 \<le> c \<and> c \<le> 0x46)"

definition digitValue :: "jschar \<Rightarrow> nat" where
  "digitValue c =
     (if 0x61 \<le> c then unat c - 87 else if 0x41 \<le> c then unat c - 55 else unat c - 48)"

definition parseInt :: "jsstring \<Rightarrow> jsnum" where
  "parseInt input =
     (let s = dropWhile isSpace input;
          negative = (take 1 s = [0x2D]);
          s1 = (if take 1 s = [0x2B] \<or> take 1 s = [0x2D] then drop 1 s else s);
          hex = (take 2 s1 = [0x30, 0x78] \<or> take 2 s1 = [0x30, 0x58]);
          s2 = (if hex then drop 2 s1 else s1);
          z = takeWhile (if hex then isHexDigit else isDigit) s2;
          mathInt = foldl (\<lambda>a c. a * (if hex then 16 else 10) + digitValue c) 0 z
      in if z = [] then NaN
         else Num (if negative then - int mathInt else int mathInt))"

section \<open>The server's state\<close>

record PDFData =
  pdf_id :: jsstring
  filename :: jsstring
  totalPages :: nat
  totalChars :: nat
  chunks :: "jsstring list"
  uploadedAt :: nat

datatype progress_status = Pending | Processing | Completed | Failed

record TTSProgress =
  status :: progress_status
  progress :: nat
  message :: jsstring

text \<open>
  A file holds the text written by \<^verbatim>\<open>fs.writeFileSync\<close> or the bytes written by the
  speech tool. The world a handler runs in: the two in-memory stores, the file system
  (\<^verbatim>\<open>fs.existsSync p\<close> is \<open>files w p \<noteq> None\<close>), the reading of \<^verbatim>\<open>Date.now()\<close>, and
  the argument lists of the calls of \<^verbatim>\<open>execFileAsync\<close> made so far.
\<close>

datatype fsfile = TextFile jsstring | MediaFile "8 word list"

record world =
  pdfStore :: "jsstring \<rightharpoonup> PDFData"
  ttsProgress :: "jsstring \<rightharpoonup> TTSProgress"
  files :: "jsstring \<rightharpoonup> fsfile"
  clock :: nat
  execLog :: "jsstring list list"

text \<open>
  What the process is given from outside: the audio directory, the speech tool
  (\<^verbatim>\<open>execFileAsync(EDGE_TTS_PATH, args, {timeout: 120000})\<close>: from the arguments and the
  file system to whether the promise resolves, a time-out being a rejection, and the file
  system the tool leaves), and the duration \<^verbatim>\<open>music-metadata\<close> reads from a file
  (\<open>None\<close> when parsing throws or finds no duration).
\<close>

record env =
  AUDIO_DIR :: jsstring
  edge_tts :: "jsstring list \<Rightarrow> (jsstring \<rightharpoonup> fsfile) \<Rightarrow> bool \<times> (jsstring \<rightharpoonup> fsfile)"
  parseDuration :: "fsfile \<Rightarrow> real option"

datatype exn = TypeError | ExecError

text \<open>
  The body a handler answers with: an error object with its status, the answer of the
  \<^verbatim>\<open>catch\<close> block (status 500 with the message of what was thrown), or the object of
  the route.
\<close>

datatype response =
    JsonError nat jsstring
  | JsonThrown exn
  | JsonChunk jsnum "jsstring option" nat
  | JsonTts jsstring real bool
  | JsonCustom jsstring real

text \<open>
  \<^verbatim>\<open>path.join(dir, name)\<close> where \<open>dir\<close> is a normalised directory, as \<^verbatim>\<open>AUDIO_DIR\<close> is,
  and \<open>name\<close> is a single path segment, as the file names built below are when the
  document identifier holds no \<^verbatim>\<open>/\<close> (the server issues base-36 identifiers). The
  normalisation \<^verbatim>\<open>path.join\<close> applies to \<^verbatim>\<open>.\<close>, \<^verbatim>\<open>..\<close> and repeated separators is not
  modelled: a statement that compares paths is made for identifiers without \<^verbatim>\<open>/\<close> only.
\<close>

definition path_join :: "jsstring \<Rightarrow> jsstring \<Rightarrow> jsstring" where
  "path_join dir name = dir @ [0x2F] @ name"

section \<open>generateTTS and getAudioDuration\<close>

definition tempFileName :: "nat \<Rightarrow> jsstring" where
  "tempFileName now = js ''/tmp/tts-'' @ decimal now @ js ''.txt''"

definition ttsArgs :: "jsstring \<Rightarrow> jsstring \<Rightarrow> jsstring \<Rightarrow> jsstring \<Rightarrow> jsstring list" where
  "ttsArgs tempFile outputPath voice rate =
     [js ''--file'', tempFile, js ''--write-media'', outputPath, js ''--voice'', voice]
     @ (if rate \<noteq> [] \<and> rate \<noteq> js ''+0%'' then [js ''--rate'', rate] else [])"

text \<open>
  The temporary file is written, the tool runs, and the \<^verbatim>\<open>finally\<close> block unlinks the
  temporary file whether or not the tool succeeded. \<open>Inl ExecError\<close> is the rejection.
\<close>

definition generateTTS :: "env \<Rightarrow> jsstring \<Rightarrow> jsstring \<Rightarrow> jsstring \<Rightarrow> jsstring \<Rightarrow> world \<Rightarrow> (exn + unit) \<times> world" where
  "generateTTS e text outputPath voice rate w =
     (let tempFile = tempFileName (clock w);
          w1 = w\<lparr>files := (files w)(tempFile \<mapsto> TextFile text)\<rparr>;
          args = ttsArgs tempFile outputPath voice rate;
          ran = edge_tts e args (files w1);
          w2 = w1\<lparr>files := snd ran, execLog := execLog w1 @ [args]\<rparr>;
          w3 = w2\<lparr>files := (files w2)(tempFile := None)\<rparr>
      in (if fst ran then Inr () else Inl ExecError, w3))"

definition getAudioDuration :: "env \<Rightarrow> world \<Rightarrow> jsstring \<Rightarrow> real" where
  "getAudioDuration e w filePath =
     (case files w filePath of
        None \<Rightarrow> 0
      | Some f \<Rightarrow> (case parseDuration e f of None \<Rightarrow> 0 | Some d \<Rightarrow> d))"

section \<open>The routes\<close>

text \<open>\<^verbatim>\<open>pdf.chunks[index]\<close>: \<open>None\<close> is \<^verbatim>\<open>undefined\<close>.\<close>

fun chunkAt :: "jsstring list \<Rightarrow> jsnum \<Rightarrow> jsstring option" where
  "chunkAt cs NaN = None"
| "chunkAt cs (Num i) = (if 0 \<le> i \<and> i < int (length cs) then Some (cs ! nat i) else None)"

text \<open>\<^verbatim>\<open>GET /api/pdf/:pdfId/chunk/:chunkIndex\<close>\<close>

definition get_api_pdf_chunk :: "jsstring \<Rightarrow> jsstring \<Rightarrow> world \<Rightarrow> response" where
  "get_api_pdf_chunk pdfId chunkIndex w =
     (case pdfStore w pdfId of
        None \<Rightarrow> JsonError 404 (js ''PDF not found'')
      | Some pdf \<Rightarrow>
          (let index = parseInt chunkIndex
           in if numLess index 0 \<or> numGreaterEq index (int (length (chunks pdf)))
              then JsonError 400 (js ''Invalid chunk index'')
              else JsonChunk index (chunkAt (chunks pdf) index) (length (chunks pdf))))"

text \<open>
  The name, the path and the URL of the audio of a chunk, lines 284 to 288 and 295 of
  \<^verbatim>\<open>server.ts\<close>; the voice loses every code unit outside \<^verbatim>\<open>[a-zA-Z0-9]\<close>.
\<close>

definition audioFilename :: "jsstring \<Rightarrow> jsnum \<Rightarrow> jsstring \<Rightarrow> jsstring" where
  "audioFilename pdfId index voice =
     pdfId @ js ''_chunk_'' @ numToString index @ js ''_'' @ filter isAlnum voice @ js ''.mp3''"

definition audioPath :: "jsstring \<Rightarrow> jsstring \<Rightarrow> jsnum \<Rightarrow> jsstring \<Rightarrow> jsstring" where
  "audioPath dir pdfId index voice = path_join dir (audioFilename pdfId index voice)"

definition audioUrl :: "jsstring \<Rightarrow> jsnum \<Rightarrow> jsstring \<Rightarrow> jsstring" where
  "audioUrl pdfId index voice = js ''/audio/'' @ audioFilename pdfId index voice"

text \<open>The defaults of the destructured request body.\<close>

definition voiceOrDefault :: "jsstring option \<Rightarrow> jsstring" where
  "voiceOrDefault v = (case v of None \<Rightarrow> js ''en-US-AriaNeural'' | Some x \<Rightarrow> x)"

definition rateOrDefault :: "jsstring option \<Rightarrow> jsstring" where
  "rateOrDefault r = (case r of None \<Rightarrow> js ''+0%'' | Some x \<Rightarrow> x)"

text \<open>
  \<^verbatim>\<open>POST /api/tts\<close>. \<open>chunkIndex\<close> is the string \<^verbatim>\<open>parseInt\<close> converts its argument
  to. Reading \<^verbatim>\<open>text.length\<close> of an undefined chunk throws a \<^verbatim>\<open>TypeError\<close>, which
  the \<^verbatim>\<open>catch\<close> block answers.
\<close>

definition post_api_tts :: "env \<Rightarrow> jsstring \<Rightarrow> jsstring \<Rightarrow> jsstring option \<Rightarrow> jsstring option \<Rightarrow> world \<Rightarrow> response \<times> world" where
  "post_api_tts e pdfId chunkIndex voiceField rateField w =
     (let voice = voiceOrDefault voiceField;
          rate = rateOrDefault rateField
      in case pdfStore w pdfId of
           None \<Rightarrow> (JsonError 404 (js ''PDF not found''), w)
         | Some pdf \<Rightarrow>
             (let index = parseInt chunkIndex
              in if numLess index 0 \<or> numGreaterEq index (int (length (chunks pdf)))
                 then (JsonError 400 (js ''Invalid chunk index''), w)
                 else case chunkAt (chunks pdf) index of
                    None \<Rightarrow> (JsonThrown TypeError, w)
                  | Some text \<Rightarrow>
                      if length text < 10 then (JsonError 400 (js ''Chunk too short''), w)
                      else if files w (audioPath (AUDIO_DIR e) pdfId index voice) \<noteq> None
                      then (JsonTts (audioUrl pdfId index voice)
                              (getAudioDuration e w (audioPath (AUDIO_DIR e) pdfId index voice)) True, w)
                      else
                        (let progressKey = pdfId @ js ''_'' @ numToString index;
                             w1 = w\<lparr>ttsProgress := (ttsProgress w)(progressKey \<mapsto>
                                    \<lparr>status = Processing, progress = 50,
                                     message = js ''Generating audio...''\<rparr>)\<rparr>;
                             gen = generateTTS e text (audioPath (AUDIO_DIR e) pdfId index voice)
                                     voice rate w1
                         in case fst gen of
                              Inl err \<Rightarrow> (JsonThrown err, snd gen)
                            | Inr u \<Rightarrow>
                                (let w2 = snd gen;
                                     duration = getAudioDuration e w2
                                                  (audioPath (AUDIO_DIR e) pdfId index voice);
                                     w3 = w2\<lparr>ttsProgress := (ttsProgress w2)(progressKey \<mapsto>
                                            \<lparr>status = Completed, progress = 100,
                                             message = js ''Done''\<rparr>)\<rparr>
                                 in (JsonTts (audioUrl pdfId index voice) duration False, w3)))))"

text \<open>\<^verbatim>\<open>POST /api/tts/custom\<close>. \<^verbatim>\<open>!text\<close> holds for a missing and for an empty text.\<close>

definition post_api_tts_custom :: "env \<Rightarrow> jsstring option \<Rightarrow> jsstring option \<Rightarrow> jsstring option \<Rightarrow> world \<Rightarrow> response \<times> world" where
  "post_api_tts_custom e textField voiceField rateField w =
     (let voice = voiceOrDefault voiceField;
          rate = rateOrDefault rateField
      in case textField of
           None \<Rightarrow> (JsonError 400 (js ''Text required''), w)
         | Some text \<Rightarrow>
             if text = [] \<or> length text < 2 then (JsonError 400 (js ''Text required''), w)
             else
               (let audioFilename = js ''custom_'' @ decimal (clock w) @ js ''.mp3'';
                    audioPath = path_join (AUDIO_DIR e) audioFilename;
                    gen = generateTTS e (cleanText text) audioPath voice rate w
                in case fst gen of
                     Inl err \<Rightarrow> (JsonThrown err, snd gen)
                   | Inr u \<Rightarrow>
                       (JsonCustom (js ''/audio/'' @ audioFilename)
                          (getAudioDuration e (snd gen) audioPath), snd gen)))"

section \<open>A document, a world and three speech tools to evaluate the routes on\<close>

text \<open>
  \<open>goodTool\<close> writes its output file (the argument after \<^verbatim>\<open>--write-media\<close>) and succeeds,
  \<open>partialTool\<close> creates the output file and then fails, \<open>failingTool\<close> fails without
  touching the file system.
\<close>

definition exampleDoc :: PDFData where
  "exampleDoc = \<lparr>pdf_id = js ''abc'', filename = js ''book.pdf'', totalPages = 1, totalChars = 33,
     chunks = [js ''Hello world. This is a test.'', js ''Bye.''], uploadedAt = 1700000000000\<rparr>"

definition exampleWorld :: world where
  "exampleWorld = \<lparr>pdfStore = [js ''abc'' \<mapsto> exampleDoc], ttsProgress = Map.empty,
     files = Map.empty, clock = 1700000000123, execLog = []\<rparr>"

definition goodTool :: "jsstring list \<Rightarrow> (jsstring \<rightharpoonup> fsfile) \<Rightarrow> bool \<times> (jsstring \<rightharpoonup> fsfile)" where
  "goodTool args fs = (True, fs(args ! 3 \<mapsto> MediaFile [0x49, 0x44, 0x33]))"

definition partialTool :: "jsstring list \<Rightarrow> (jsstring \<rightharpoonup> fsfile) \<Rightarrow> bool \<times> (jsstring \<rightharpoonup> fsfile)" where
  "partialTool args fs = (False, fs(args ! 3 \<mapsto> MediaFile []))"

definition failingTool :: "jsstring list \<Rightarrow> (jsstring \<rightharpoonup> fsfile) \<Rightarrow> bool \<times> (jsstring \<rightharpoonup> fsfile)" where
  "failingTool args fs = (False, fs)"

definition exampleEnv :: "(jsstring list \<Rightarrow> (jsstring \<rightharpoonup> fsfile) \<Rightarrow> bool \<times> (jsstring \<rightharpoonup> fsfile)) \<Rightarrow> env" where
  "exampleEnv tool = \<lparr>AUDIO_DIR = js ''/srv/audio'', edge_tts = tool, parseDuration = (\<lambda>f. None)\<rparr>"

text \<open>
  The world after \<^verbatim>\<open>ttsProgress.set(progressKey, ...)\<close> of a request that misses the cache,
  in which \<open>generateTTS\<close> is then called.
\<close>

definition missWorld :: "jsstring \<Rightarrow> jsnum \<Rightarrow> world \<Rightarrow> world" where
  "missWorld pdfId index w =
     w\<lparr>ttsProgress := (ttsProgress w)(pdfId @ js ''_'' @ numToString index \<mapsto>
          \<lparr>status = Processing, progress = 50, message = js ''Generating audio...''\<rparr>)\<rparr>"

section \<open>Joining chunks\<close>

text \<open>\<^verbatim>\<open>chunks.join(' ')\<close>\<close>

fun joinSpace :: "jsstring list \<Rightarrow> jsstring" where
  "joinSpace [] = []"
| "joinSpace [x] = x"
| "joinSpace (x # y # ys) = x @ [0x20] @ joinSpace (y # ys)"

text \<open>
  The shape of a string that \<open>cleanText\<close> leaves as it is: its only white space is the
  space, no two spaces are adjacent (\<open>singleSpaced\<close>), and it neither starts nor ends
  with white space (\<open>cleanEdged\<close>, which also says that the string is not empty).
\<close>

definition startsSpace :: "jsstring \<Rightarrow> bool" where
  "startsSpace s = (case s of [] \<Rightarrow> False | c # cs \<Rightarrow> isSpace c)"

primrec singleSpaced :: "jsstring \<Rightarrow> bool" where
  "singleSpaced [] = True"
| "singleSpaced (c # cs) = ((isSpace c \<longrightarrow> c = 0x20 \<and> \<not> startsSpace cs) \<and> singleSpaced cs)"

definition cleanEdged :: "jsstring \<Rightarrow> bool" where
  "cleanEdged s \<longleftrightarrow> s \<noteq> [] \<and> \<not> isSpace (hd s) \<and> \<not> isSpace (last s)"

section \<open>Facts about trim\<close>

lemma isSpace_space: "isSpace 0x20"
  by (simp add: isSpace_def)

lemma trim_snoc_space: "isSpace c \<Longrightarrow> trim (s @ [c]) = trim s"
proof (cases "\<forall>x\<in>set s. isSpace x")
  case True
  assume c: "isSpace c"
  from True have a: "dropWhile isSpace s = []" by simp
  from True c have b: "dropWhile isSpace (s @ [c]) = []" by simp
  show ?thesis unfolding trim_def a b by (rule refl)
next
  case False
  assume c: "isSpace c"
  from False obtain x where "x \<in> set s" "\<not> isSpace x" by blast
  then have "dropWhile isSpace (s @ [c]) = dropWhile isSpace s @ [c]"
    by (rule dropWhile_append1)
  with c show ?thesis by (simp add: trim_def)
qed

lemma length_trim_le: "length (trim s) \<le> length s"
proof -
  have "length (trim s) \<le> length (dropWhile isSpace s)"
    unfolding trim_def length_rev by (metis length_dropWhile_le length_rev)
  also have "\<dots> \<le> length s" by (rule length_dropWhile_le)
  finally show ?thesis .
qed

section \<open>The bound on a chunk\<close>

text \<open>
  The loop keeps this: every finished chunk is shorter than \<open>m\<close> or is one trimmed
  sentence of length at least \<open>m\<close>, and the accumulator is empty or a body followed by
  one space, the body being shorter than \<open>m\<close> or one such sentence.
\<close>

lemma chunkLoop_bound:
  assumes "\<forall>c\<in>set out. int (length c) < m \<or> (\<exists>s\<in>S. c = trim s \<and> m \<le> int (length s))"
    and "current = [] \<or> (\<exists>body. current = body @ [0x20] \<and>
           (int (length body) < m \<or> (body \<in> S \<and> m \<le> int (length body))))"
    and "set ss \<subseteq> S"
  shows "\<forall>c\<in>set (chunkLoop m out current ss).
           int (length c) < m \<or> (\<exists>s\<in>S. c = trim s \<and> m \<le> int (length s))"
  using assms
proof (induction ss arbitrary: out current)
  case Nil
  have "int (length (trim current)) < m \<or> (\<exists>s\<in>S. trim current = trim s \<and> m \<le> int (length s))"
    if "trim current \<noteq> []"
  proof -
    from that have "current \<noteq> []" by (auto simp: trim_def)
    with Nil.prems(2) obtain body where b: "current = body @ [0x20]"
      and bb: "int (length body) < m \<or> (body \<in> S \<and> m \<le> int (length body))" by blast
    have t: "trim current = trim body" unfolding b by (rule trim_snoc_space[OF isSpace_space])
    from bb show ?thesis
    proof
      assume "int (length body) < m"
      with length_trim_le[of body] t show ?thesis by simp
    next
      assume "body \<in> S \<and> m \<le> int (length body)"
      with t show ?thesis by blast
    qed
  qed
  with Nil.prems(1) show ?case by auto
next
  case (Cons s ss)
  from Cons.prems(3) have sS: "s \<in> S" and ssS: "set ss \<subseteq> S" by auto
  show ?case
  proof (cases "int (length (current @ s)) < m")
    case True
    have "current @ s @ [0x20] = (current @ s) @ [0x20]" by simp
    with True have c2: "current @ s @ [0x20] = [] \<or> (\<exists>body. current @ s @ [0x20] = body @ [0x20] \<and>
           (int (length body) < m \<or> (body \<in> S \<and> m \<le> int (length body))))" by blast
    from True have "chunkLoop m out current (s # ss) = chunkLoop m out (current @ s @ [0x20]) ss"
      by simp
    with Cons.IH[OF Cons.prems(1) c2 ssS] show ?thesis by simp
  next
    case False
    let ?out = "if current \<noteq> [] then out @ [trim current] else out"
    have c1: "\<forall>c\<in>set ?out. int (length c) < m \<or> (\<exists>s\<in>S. c = trim s \<and> m \<le> int (length s))"
    proof (cases "current = []")
      case True
      with Cons.prems(1) show ?thesis by simp
    next
      case cne: False
      with Cons.prems(2) obtain body where b: "current = body @ [0x20]"
        and bb: "int (length body) < m \<or> (body \<in> S \<and> m \<le> int (length body))" by blast
      have t: "trim current = trim body" unfolding b by (rule trim_snoc_space[OF isSpace_space])
      from bb have "int (length (trim current)) < m \<or> (\<exists>s\<in>S. trim current = trim s \<and> m \<le> int (length s))"
      proof
        assume "int (length body) < m"
        with length_trim_le[of body] t show ?thesis by simp
      next
        assume "body \<in> S \<and> m \<le> int (length body)"
        with t show ?thesis by blast
      qed
      with Cons.prems(1) cne show ?thesis by auto
    qed
    have c2: "s @ [0x20] = [] \<or> (\<exists>body. s @ [0x20] = body @ [0x20] \<and>
           (int (length body) < m \<or> (body \<in> S \<and> m \<le> int (length body))))"
      using sS by (cases "int (length s) < m") auto
    from False have "chunkLoop m out current (s # ss) = chunkLoop m ?out (s @ [0x20]) ss"
      by simp
    with Cons.IH[OF c1 c2 ssS] show ?thesis by simp
  qed
qed

text \<open>
  Claim C1. Every chunk that \<open>splitIntoChunks\<close> returns is strictly shorter than
  \<open>maxChars\<close>, except a chunk that is a single sentence of the text, trimmed and not
  split, whose own length is at least \<open>maxChars\<close>.
\<close>

theorem chunk_bound:
  "\<forall>c \<in> set (splitIntoChunks text maxChars).
     int (length c) < maxChars \<or>
     (\<exists>s \<in> set (splitSentences text). c = trim s \<and> maxChars \<le> int (length s))"
  unfolding splitIntoChunks_def
  by (rule chunkLoop_bound) auto

theorem chunk_bound_witness:
  "splitIntoChunks (js ''Hi. A very long sentence here. Ok.'') 10
     = [js ''Hi.'', js ''A very long sentence here.'', js ''Ok.'']
   \<and> int (length (js ''Hi.'')) < 10
   \<and> js ''A very long sentence here.''
       \<in> set (splitSentences (js ''Hi. A very long sentence here. Ok.''))
   \<and> js ''A very long sentence here.'' = trim (js ''A very long sentence here.'')
   \<and> 10 \<le> int (length (js ''A very long sentence here.''))"
  using chunk_bound [of "js ''Hi. A very long sentence here. Ok.''" 10]
  by code_simp

section \<open>Empty input\<close>

text \<open>
  Claim C8. \<open>splitIntoChunks\<close> is a total function (its loops are the terminating
  recursions \<open>splitAux\<close> and \<open>chunkLoop\<close>, and no step of it can throw), and it returns
  the empty sequence for the empty string, which is also what \<open>cleanText\<close> makes of the
  empty string.
\<close>

theorem splitIntoChunks_empty:
  "splitIntoChunks [] maxChars = [] \<and> cleanText [] = []
   \<and> splitIntoChunks (cleanText []) maxChars = []"
  by (simp add: splitIntoChunks_def splitSentences_def cleanText_def trim_def isSpace_space)

section \<open>Digit-only lines\<close>

text \<open>
  Claim C6. \<open>cleanText\<close> is to remove every line made of digits only. White space,
  line breaks included, is collapsed before the pass that removes such lines runs, so
  that pass sees one line: the line \<^verbatim>\<open>123\<close> between two other lines survives.
\<close>

theorem cleanText_keeps_digit_line:
  "cleanText (js ''Hello'' @ [0x0A] @ js ''123'' @ [0x0A] @ js ''World'')
     = js ''Hello 123 World''"
  by code_simp

section \<open>Reconstruction of a normalised text\<close>

lemma startsSpace_simps [simp]:
  "startsSpace [] = False" "startsSpace (c # cs) = isSpace c"
  by (simp_all add: startsSpace_def)

lemma not_startsSpace_dropWhile: "\<not> startsSpace (dropWhile isSpace s)"
  by (induction s) auto

lemma startsSpace_collapse: "startsSpace (collapseSpace s) = startsSpace s"
  by (cases s) (auto simp: isSpace_space)

lemma singleSpaced_collapse: "singleSpaced (collapseSpace s)"
  by (induction s rule: collapseSpace.induct)
     (auto simp: startsSpace_collapse not_startsSpace_dropWhile)

lemma startsSpace_take: "startsSpace (take n s) \<Longrightarrow> startsSpace s"
  by (cases s; cases n) auto

lemma singleSpaced_take: "singleSpaced s \<Longrightarrow> singleSpaced (take n s)"
proof (induction s arbitrary: n)
  case Nil
  then show ?case by simp
next
  case (Cons c cs)
  show ?case
  proof (cases n)
    case 0
    then show ?thesis by simp
  next
    case (Suc k)
    with Cons show ?thesis by (auto dest: startsSpace_take)
  qed
qed

lemma singleSpaced_dropWhile: "singleSpaced s \<Longrightarrow> singleSpaced (dropWhile P s)"
  by (induction s) auto

lemma trim_take: "trim s = take (length (dropWhile isSpace s)
    - length (takeWhile isSpace (rev (dropWhile isSpace s)))) (dropWhile isSpace s)"
proof -
  let ?y = "dropWhile isSpace s"
  have "dropWhile isSpace (rev ?y) = drop (length (takeWhile isSpace (rev ?y))) (rev ?y)"
    by (rule dropWhile_eq_drop)
  also have "\<dots> = rev (take (length ?y - length (takeWhile isSpace (rev ?y))) ?y)"
    by (simp add: drop_rev)
  finally show ?thesis by (simp add: trim_def)
qed

lemma singleSpaced_trim: "singleSpaced s \<Longrightarrow> singleSpaced (trim s)"
  by (subst trim_take) (intro singleSpaced_take singleSpaced_dropWhile)

lemma trim_edges:
  assumes "trim s \<noteq> []"
  shows "cleanEdged (trim s)"
proof -
  let ?y = "dropWhile isSpace s"
  let ?z = "dropWhile isSpace (rev ?y)"
  have t: "trim s = rev ?z" by (simp add: trim_def)
  with assms have z: "?z \<noteq> []" by simp
  have y: "?y \<noteq> []"
  proof
    assume "?y = []"
    then have "?z = []" by (simp only: rev.simps dropWhile.simps)
    with z show False by contradiction
  qed
  have hz: "\<not> isSpace (hd ?z)" using z by (rule hd_dropWhile)
  have hy: "\<not> isSpace (hd ?y)" using y by (rule hd_dropWhile)
  have "rev ?y = takeWhile isSpace (rev ?y) @ ?z" by simp
  then have "last (rev ?y) = last ?z" using z by (metis last_appendR)
  then have lz: "last ?z = hd ?y" using y by (simp add: last_rev)
  have "last (trim s) = hd ?z" using z t by (simp add: last_rev)
  moreover have "hd (trim s) = last ?z" using z t by (simp add: hd_rev)
  ultimately show ?thesis using hz hy lz assms by (simp add: cleanEdged_def)
qed

lemma trim_cleanEdged: "cleanEdged s \<Longrightarrow> trim s = s"
proof -
  assume c: "cleanEdged s"
  then obtain x xs where s: "s = x # xs" and x: "\<not> isSpace x"
    by (cases s) (auto simp: cleanEdged_def)
  then have a: "dropWhile isSpace s = s" by simp
  from c have "rev s \<noteq> []" "\<not> isSpace (hd (rev s))" by (auto simp: cleanEdged_def hd_rev)
  then have b: "dropWhile isSpace (rev s) = rev s" by (cases "rev s") auto
  show ?thesis unfolding trim_def a b by simp
qed

lemma lineTerminator_space: "isLineTerminator c \<Longrightarrow> isSpace c \<and> c \<noteq> 0x20"
  by (auto simp: isLineTerminator_def isSpace_def)

lemma singleSpaced_noLT: "singleSpaced s \<Longrightarrow> c \<in> set s \<Longrightarrow> \<not> isLineTerminator c"
  by (induction s) (auto dest: lineTerminator_space)

lemma strip_False_noLT: "\<forall>c\<in>set s. \<not> isLineTerminator c \<Longrightarrow> stripDigitLines False s = s"
  by (induction s) auto

lemma strip_True_noLT:
  assumes "\<forall>c\<in>set s. \<not> isLineTerminator c"
  shows "stripDigitLines True s = s \<or> stripDigitLines True s = []"
proof (cases s)
  case Nil
  then show ?thesis by simp
next
  case (Cons c cs)
  show ?thesis
  proof (cases "matchDigitLine s")
    case None
    with Cons assms show ?thesis by (simp add: strip_False_noLT)
  next
    case (Some p)
    obtain b rest where p: "p = (b, rest)" by (cases p)
    have "set (takeWhile isSpace (dropWhile isDigit s)) \<subseteq> set s"
      by (meson set_takeWhileD set_dropWhileD subsetI)
    with assms have "\<not> (\<exists>c\<in>set (takeWhile isSpace (dropWhile isDigit s)). isLineTerminator c)"
      by blast
    with Some p have "rest = []"
      by (auto simp: matchDigitLine_def Let_def split: if_splits)
    with Some p Cons show ?thesis by simp
  qed
qed

lemma normalized_shape:
  assumes "cleanText t = t" and "t \<noteq> []"
  shows "singleSpaced t \<and> cleanEdged t"
proof -
  let ?v = "collapseSpace (replaceEllipsis (replaceDashes
             (replaceDoubleQuotes (replaceSingleQuotes (removeControl t)))))"
  from assms have t: "t = trim (stripDigitLines True ?v)" by (simp add: cleanText_def)
  have sv: "singleSpaced ?v" by (rule singleSpaced_collapse)
  then have "\<forall>c\<in>set ?v. \<not> isLineTerminator c" by (blast dest: singleSpaced_noLT)
  then have "stripDigitLines True ?v = ?v \<or> stripDigitLines True ?v = []"
    by (rule strip_True_noLT)
  moreover have "trim [] = []" by (simp add: trim_def)
  ultimately have tv: "t = trim ?v" using t assms(2) by metis
  from sv have "singleSpaced (trim ?v)" by (rule singleSpaced_trim)
  moreover from tv assms(2) have "cleanEdged (trim ?v)" by (intro trim_edges) simp
  ultimately show ?thesis using tv by simp
qed

lemma sentenceEnd_not_space: "isSentenceEnd c \<Longrightarrow> \<not> isSpace c"
  by (auto simp: isSentenceEnd_def isSpace_def)

lemma splitAux_nonempty: "splitAux b acc s \<noteq> []"
  by (induction b acc s rule: splitAux.induct) auto

lemma joinSpace_Cons: "ys \<noteq> [] \<Longrightarrow> joinSpace (x # ys) = x @ [0x20] @ joinSpace ys"
  by (cases ys) auto

lemma splitAux_normal:
  assumes "singleSpaced s"
    and "s \<noteq> [] \<longrightarrow> \<not> isSpace (last s)"
    and "acc = [] \<longrightarrow> \<not> b \<and> s \<noteq> [] \<and> \<not> isSpace (hd s)"
    and "acc \<noteq> [] \<longrightarrow> \<not> isSpace (hd acc) \<and> (b \<longrightarrow> isSentenceEnd (last acc))
           \<and> (s = [] \<longrightarrow> \<not> isSpace (last acc))"
  shows "(\<forall>x\<in>set (splitAux b acc s). cleanEdged x) \<and> joinSpace (splitAux b acc s) = acc @ s"
  using assms
proof (induction b acc s rule: splitAux.induct)
  case (1 afterEnd acc)
  then show ?case by (auto simp: cleanEdged_def)
next
  case (2 afterEnd acc c cs)
  show ?case
  proof (cases "afterEnd \<and> isSpace c")
    case True
    with "2.prems"(3) have accne: "acc \<noteq> []" by blast
    with "2.prems"(4) True have acc: "cleanEdged acc"
      by (auto simp: cleanEdged_def dest: sentenceEnd_not_space)
    from True "2.prems"(1) have c: "c = 0x20" and ns: "\<not> startsSpace cs" and ss: "singleSpaced cs"
      by auto
    from ns have dw: "dropWhile isSpace cs = cs" by (cases cs) auto
    from True "2.prems"(2) have csne: "cs \<noteq> []" by auto
    with "2.prems"(2) have lcs: "cs \<noteq> [] \<longrightarrow> \<not> isSpace (last cs)" by auto
    from csne ns have hcs: "[] = [] \<longrightarrow> \<not> False \<and> cs \<noteq> [] \<and> \<not> isSpace (hd cs)"
      by (cases cs) auto
    have e: "([]::jsstring) \<noteq> [] \<longrightarrow> \<not> isSpace (hd []) \<and> (False \<longrightarrow> isSentenceEnd (last []))
           \<and> (cs = [] \<longrightarrow> \<not> isSpace (last []))" by simp
    note IH = "2.IH"(1)[OF True, unfolded dw, OF ss lcs hcs e]
    from True have "splitAux afterEnd acc (c # cs) = acc # splitAux False [] cs"
      by (simp add: dw)
    with IH acc c show ?thesis
      by (simp add: joinSpace_Cons splitAux_nonempty)
  next
    case False
    from "2.prems"(1) have ss: "singleSpaced cs" by simp
    from "2.prems"(2) have lcs: "cs \<noteq> [] \<longrightarrow> \<not> isSpace (last cs)" by auto
    have a: "acc @ [c] = [] \<longrightarrow> \<not> isSentenceEnd c \<and> cs \<noteq> [] \<and> \<not> isSpace (hd cs)" by simp
    have hd: "\<not> isSpace (hd (acc @ [c]))"
    proof (cases acc)
      case Nil
      with "2.prems"(3) show ?thesis by simp
    next
      case (Cons x xs)
      with "2.prems"(4) show ?thesis by simp
    qed
    have "cs = [] \<longrightarrow> \<not> isSpace c" using "2.prems"(2) by auto
    with hd have b: "acc @ [c] \<noteq> [] \<longrightarrow> \<not> isSpace (hd (acc @ [c]))
          \<and> (isSentenceEnd c \<longrightarrow> isSentenceEnd (last (acc @ [c])))
          \<and> (cs = [] \<longrightarrow> \<not> isSpace (last (acc @ [c])))" by simp
    note IH = "2.IH"(2)[OF False ss lcs a b]
    from False have "splitAux afterEnd acc (c # cs) = splitAux (isSentenceEnd c) (acc @ [c]) cs"
      by auto
    with IH show ?thesis by simp
  qed
qed

lemma joinSpace_append:
  "xs \<noteq> [] \<Longrightarrow> ys \<noteq> [] \<Longrightarrow> joinSpace (xs @ ys) = joinSpace xs @ [0x20] @ joinSpace ys"
proof (induction xs rule: joinSpace.induct)
  case 1
  then show ?case by simp
next
  case (2 x)
  then show ?case by (simp add: joinSpace_Cons)
next
  case (3 x y ys)
  then show ?case by simp
qed

lemma joinSpace_merge:
  "joinSpace (out @ (a @ [0x20] @ b) # ss) = joinSpace (out @ a # b # ss)"
proof (cases "out = []")
  case True
  then show ?thesis by (cases ss) auto
next
  case False
  have "joinSpace ((a @ [0x20] @ b) # ss) = joinSpace (a # b # ss)" by (cases ss) auto
  with False show ?thesis by (simp add: joinSpace_append)
qed

lemma chunkLoop_join:
  assumes "cleanEdged body" and "\<forall>s\<in>set ss. cleanEdged s"
  shows "joinSpace (chunkLoop m out (body @ [0x20]) ss) = joinSpace (out @ body # ss)"
  using assms
proof (induction ss arbitrary: out body)
  case Nil
  then have "trim (body @ [0x20]) = body"
    by (simp add: trim_snoc_space isSpace_space trim_cleanEdged)
  moreover from Nil have "body \<noteq> []" by (simp add: cleanEdged_def)
  ultimately show ?case by simp
next
  case (Cons s ss)
  from Cons.prems have s: "cleanEdged s" and ss: "\<forall>s\<in>set ss. cleanEdged s" by auto
  have tb: "trim (body @ [0x20]) = body"
    using Cons.prems(1) by (simp add: trim_snoc_space isSpace_space trim_cleanEdged)
  show ?case
  proof (cases "int (length ((body @ [0x20]) @ s)) < m")
    case True
    have ce: "cleanEdged (body @ [0x20] @ s)"
      using Cons.prems(1) s by (auto simp: cleanEdged_def)
    from True have "chunkLoop m out (body @ [0x20]) (s # ss)
        = chunkLoop m out ((body @ [0x20] @ s) @ [0x20]) ss" by simp
    also have "joinSpace \<dots> = joinSpace (out @ (body @ [0x20] @ s) # ss)"
      by (rule Cons.IH[OF ce ss])
    also have "\<dots> = joinSpace (out @ body # s # ss)" by (rule joinSpace_merge)
    finally show ?thesis .
  next
    case False
    then have "chunkLoop m out (body @ [0x20]) (s # ss)
        = chunkLoop m (out @ [body]) (s @ [0x20]) ss" by (simp add: tb)
    also have "joinSpace \<dots> = joinSpace ((out @ [body]) @ s # ss)"
      by (rule Cons.IH[OF s ss])
    finally show ?thesis by simp
  qed
qed

lemma chunkLoop_start:
  "chunkLoop m [] [] (s # ss) = chunkLoop m [] (s @ [0x20]) ss"
  by simp


text \<open>
  Claim C2. For a text that is already normalised, that is, equal to its image under
  \<open>cleanText\<close>, and for every \<open>maxChars\<close>, joining the chunks of
  \<open>splitIntoChunks\<close> with single spaces gives the text back exactly.
\<close>

theorem chunk_reconstruction:
  assumes "cleanText text = text"
  shows "joinSpace (splitIntoChunks text maxChars) = text"
proof (cases "text = []")
  case True
  then show ?thesis
    by (simp add: splitIntoChunks_def splitSentences_def trim_def isSpace_space)
next
  case False
  with assms have sh: "singleSpaced text" "cleanEdged text"
    using normalized_shape by blast+
  then have "(\<forall>x\<in>set (splitAux False [] text). cleanEdged x)
      \<and> joinSpace (splitAux False [] text) = [] @ text"
    by (intro splitAux_normal) (auto simp: cleanEdged_def)
  then have ce: "\<forall>x\<in>set (splitSentences text). cleanEdged x"
    and j: "joinSpace (splitSentences text) = text"
    by (simp_all add: splitSentences_def)
  have "splitSentences text \<noteq> []"
    by (simp add: splitSentences_def splitAux_nonempty)
  then obtain s ss where sp: "splitSentences text = s # ss"
    by (cases "splitSentences text") auto
  with ce have s: "cleanEdged s" and ss: "\<forall>x\<in>set ss. cleanEdged x" by auto
  have "joinSpace (splitIntoChunks text maxChars) = joinSpace (chunkLoop maxChars [] (s @ [0x20]) ss)"
    by (simp only: splitIntoChunks_def sp chunkLoop_start)
  also have "\<dots> = joinSpace ([] @ s # ss)" by (rule chunkLoop_join[OF s ss])
  finally show ?thesis using j sp by simp
qed


theorem chunk_reconstruction_witness:
  "cleanText (js ''Hello world. This is a test. Another sentence here.'')
     = js ''Hello world. This is a test. Another sentence here.''
   \<and> splitIntoChunks (js ''Hello world. This is a test. Another sentence here.'') 30
     = [js ''Hello world. This is a test.'', js ''Another sentence here.'']
   \<and> joinSpace (splitIntoChunks (js ''Hello world. This is a test. Another sentence here.'') 30)
     = js ''Hello world. This is a test. Another sentence here.''"
proof -
  have h: "cleanText (js ''Hello world. This is a test. Another sentence here.'')
     = js ''Hello world. This is a test. Another sentence here.''"
    by code_simp
  have c: "splitIntoChunks (js ''Hello world. This is a test. Another sentence here.'') 30
     = [js ''Hello world. This is a test.'', js ''Another sentence here.'']"
    by code_simp
  from h c chunk_reconstruction [OF h, of 30] show ?thesis by simp
qed

section \<open>Requests that hit and requests that miss the cache\<close>

lemma chunkAt_Some:
  assumes "chunkAt cs n = Some text"
  shows "\<not> (numLess n 0 \<or> numGreaterEq n (int (length cs)))"
  using assms by (cases n) (auto split: if_splits)

lemma chunkAt_NaN: "parseInt chunkIndex = NaN \<Longrightarrow> chunkAt cs (parseInt chunkIndex) = None"
  by simp

lemma tts_cached_call:
  assumes "pdfStore w pdfId = Some pdf"
    and "chunkAt (chunks pdf) (parseInt chunkIndex) = Some text"
    and "10 \<le> length text"
    and "files w (audioPath (AUDIO_DIR e) pdfId (parseInt chunkIndex) (voiceOrDefault voice)) \<noteq> None"
  shows "post_api_tts e pdfId chunkIndex voice rate w =
     (JsonTts (audioUrl pdfId (parseInt chunkIndex) (voiceOrDefault voice))
        (getAudioDuration e w (audioPath (AUDIO_DIR e) pdfId (parseInt chunkIndex) (voiceOrDefault voice)))
        True, w)"
proof -
  note g = chunkAt_Some[OF assms(2)]
  have "\<not> length text < 10" using assms(3) by simp
  with assms(1,2,4) g show ?thesis
    unfolding post_api_tts_def Let_def by (simp del: numLess.simps numGreaterEq.simps)
qed

lemma tts_miss_call:
  assumes "pdfStore w pdfId = Some pdf"
    and "chunkAt (chunks pdf) (parseInt chunkIndex) = Some text"
    and "10 \<le> length text"
    and "files w (audioPath (AUDIO_DIR e) pdfId (parseInt chunkIndex) (voiceOrDefault voice)) = None"
  shows "post_api_tts e pdfId chunkIndex voice rate w =
     (let index = parseInt chunkIndex;
          path = audioPath (AUDIO_DIR e) pdfId index (voiceOrDefault voice);
          gen = generateTTS e text path (voiceOrDefault voice) (rateOrDefault rate)
                  (missWorld pdfId index w)
      in case fst gen of
           Inl err \<Rightarrow> (JsonThrown err, snd gen)
         | Inr u \<Rightarrow>
             (JsonTts (audioUrl pdfId index (voiceOrDefault voice))
                (getAudioDuration e (snd gen) path) False,
              (snd gen)\<lparr>ttsProgress := (ttsProgress (snd gen))
                 (pdfId @ js ''_'' @ numToString index \<mapsto>
                    \<lparr>status = Completed, progress = 100, message = js ''Done''\<rparr>)\<rparr>))"
proof -
  note g = chunkAt_Some[OF assms(2)]
  have "\<not> length text < 10" using assms(3) by simp
  with assms(1,2,4) g show ?thesis
    unfolding post_api_tts_def Let_def missWorld_def by (simp del: numLess.simps numGreaterEq.simps)
qed

lemma generateTTS_keeps:
  "pdfStore (snd (generateTTS e text path v r w)) = pdfStore w"
  "execLog (snd (generateTTS e text path v r w))
     = execLog w @ [ttsArgs (tempFileName (clock w)) path v r]"
  "files (snd (generateTTS e text path v r w))
     = (snd (edge_tts e (ttsArgs (tempFileName (clock w)) path v r)
               ((files w)(tempFileName (clock w) \<mapsto> TextFile text))))
       (tempFileName (clock w) := None)"
  "fst (generateTTS e text path v r w) =
     (if fst (edge_tts e (ttsArgs (tempFileName (clock w)) path v r)
               ((files w)(tempFileName (clock w) \<mapsto> TextFile text)))
      then Inr () else Inl ExecError)"
  by (simp_all add: generateTTS_def Let_def)

lemma missWorld_keeps [simp]:
  "pdfStore (missWorld p i w) = pdfStore w"
  "files (missWorld p i w) = files w"
  "clock (missWorld p i w) = clock w"
  "execLog (missWorld p i w) = execLog w"
  by (simp_all add: missWorld_def)

lemma getAudioDuration_files:
  "files w = files w' \<Longrightarrow> getAudioDuration e w p = getAudioDuration e w' p"
  by (simp add: getAudioDuration_def)

text \<open>
  What a first request that is answered with audio did, and what a later request for the
  same document, chunk and voice, at any rate, is answered.
\<close>

lemma tts_first_then_cached:
  assumes store: "pdfStore w pdfId = Some pdf"
    and chunk: "chunkAt (chunks pdf) (parseInt chunkIndex) = Some text"
    and long: "10 \<le> length text"
    and absent: "files w (audioPath (AUDIO_DIR e) pdfId (parseInt chunkIndex) (voiceOrDefault voice)) = None"
    and first: "fst (post_api_tts e pdfId chunkIndex voice rate w) = JsonTts url d cached"
    and written: "files (snd (post_api_tts e pdfId chunkIndex voice rate w))
           (audioPath (AUDIO_DIR e) pdfId (parseInt chunkIndex) (voiceOrDefault voice)) \<noteq> None"
  shows "cached = False"
    and "url = audioUrl pdfId (parseInt chunkIndex) (voiceOrDefault voice)"
    and "length (execLog (snd (post_api_tts e pdfId chunkIndex voice rate w))) = Suc (length (execLog w))"
    and "post_api_tts e pdfId chunkIndex voice rate' (snd (post_api_tts e pdfId chunkIndex voice rate w))
         = (JsonTts url d True, snd (post_api_tts e pdfId chunkIndex voice rate w))"
proof -
  let ?index = "parseInt chunkIndex"
  let ?path = "audioPath (AUDIO_DIR e) pdfId ?index (voiceOrDefault voice)"
  let ?gen = "generateTTS e text ?path (voiceOrDefault voice) (rateOrDefault rate)
                (missWorld pdfId ?index w)"
  let ?w1 = "snd (post_api_tts e pdfId chunkIndex voice rate w)"
  note miss = tts_miss_call[OF store chunk long absent, of rate, unfolded Let_def]
  from first miss obtain u where ok: "fst ?gen = Inr u"
    by (cases "fst ?gen") auto
  from miss ok have resp: "fst (post_api_tts e pdfId chunkIndex voice rate w)
      = JsonTts (audioUrl pdfId ?index (voiceOrDefault voice)) (getAudioDuration e (snd ?gen) ?path) False"
    and w1: "?w1 = (snd ?gen)\<lparr>ttsProgress := (ttsProgress (snd ?gen))
                 (pdfId @ js ''_'' @ numToString ?index \<mapsto>
                    \<lparr>status = Completed, progress = 100, message = js ''Done''\<rparr>)\<rparr>"
    by simp_all
  from resp first show c: "cached = False"
    and u: "url = audioUrl pdfId ?index (voiceOrDefault voice)" by simp_all
  from resp first have d: "d = getAudioDuration e (snd ?gen) ?path" by simp
  have f1: "files ?w1 = files (snd ?gen)" by (subst w1) simp
  have s1: "pdfStore ?w1 = pdfStore w" by (subst w1) (simp add: generateTTS_keeps)
  show "length (execLog ?w1) = Suc (length (execLog w))"
    by (subst w1) (simp add: generateTTS_keeps)
  have d1: "getAudioDuration e ?w1 ?path = d"
    unfolding d by (rule getAudioDuration_files[OF f1])
  from s1 store have store1: "pdfStore ?w1 pdfId = Some pdf" by simp
  show "post_api_tts e pdfId chunkIndex voice rate' ?w1 = (JsonTts url d True, ?w1)"
    using tts_cached_call[OF store1 chunk long written, of rate'] d1 u by simp
qed

lemma example_store: "pdfStore exampleWorld (js ''abc'') = Some exampleDoc"
  by (simp add: exampleWorld_def)

lemma example_parse0: "parseInt (js ''0'') = Num 0"
  by (simp add: parseInt_def js_def isSpace_def isDigit_def digitValue_def)

lemma example_chunk0:
  "chunkAt (chunks exampleDoc) (parseInt (js ''0'')) = Some (js ''Hello world. This is a test.'')"
  by (simp add: example_parse0 exampleDoc_def)

lemma example_long: "10 \<le> length (js ''Hello world. This is a test.'')"
  by (simp add: js_def)

lemma example_absent:
  "files exampleWorld (audioPath (AUDIO_DIR (exampleEnv tool)) (js ''abc'') (parseInt (js ''0''))
      (voiceOrDefault None)) = None"
  by (simp add: exampleWorld_def)

lemma example_url:
  "audioUrl (js ''abc'') (Num 0) (js ''en-US-AriaNeural'') = js ''/audio/abc_chunk_0_enUSAriaNeural.mp3''"
  by (simp add: audioUrl_def audioFilename_def js_def isAlnum_def decimal.simps digitChar_def)

lemma example_path_not_temp:
  "audioPath (js ''/srv/audio'') (js ''abc'') (Num 0) (js ''en-US-AriaNeural'')
     \<noteq> tempFileName 1700000000123"
  by (simp add: audioPath_def path_join_def tempFileName_def js_def)

lemmas example_miss =
  tts_miss_call[OF example_store example_chunk0 example_long example_absent, unfolded Let_def example_parse0]

lemma example_first_response:
  "fst (post_api_tts (exampleEnv goodTool) (js ''abc'') (js ''0'') None rate exampleWorld)
     = JsonTts (js ''/audio/abc_chunk_0_enUSAriaNeural.mp3'') 0 False"
  unfolding example_miss
  by (simp add: generateTTS_keeps example_url voiceOrDefault_def exampleEnv_def goodTool_def
        getAudioDuration_def split: option.split)

lemma example_first_written:
  "files (snd (post_api_tts (exampleEnv goodTool) (js ''abc'') (js ''0'') None rate exampleWorld))
     (audioPath (AUDIO_DIR (exampleEnv goodTool)) (js ''abc'') (parseInt (js ''0'')) (voiceOrDefault None)) \<noteq> None"
  unfolding example_miss example_parse0 using example_path_not_temp
  by (simp add: generateTTS_keeps voiceOrDefault_def exampleEnv_def goodTool_def ttsArgs_def
        exampleWorld_def)

section \<open>The cache\<close>

text \<open>
  Claim C3. For a document, chunk index and voice whose artifact does not exist yet, a
  first request that is answered with audio reports \<open>cached = False\<close> and has run the
  speech tool once; given that the tool left the artifact at its path, a second request
  with the same key is answered with \<open>cached = True\<close>, the same URL and duration, and
  leaves the world as it is, so the tool is not run again.
\<close>

theorem idempotent_cache:
  assumes "pdfStore w pdfId = Some pdf"
    and "chunkAt (chunks pdf) (parseInt chunkIndex) = Some text"
    and "10 \<le> length text"
    and "files w (audioPath (AUDIO_DIR e) pdfId (parseInt chunkIndex) (voiceOrDefault voice)) = None"
    and "fst (post_api_tts e pdfId chunkIndex voice rate w) = JsonTts url d cached"
    and "files (snd (post_api_tts e pdfId chunkIndex voice rate w))
           (audioPath (AUDIO_DIR e) pdfId (parseInt chunkIndex) (voiceOrDefault voice)) \<noteq> None"
  shows "cached = False
     \<and> length (execLog (snd (post_api_tts e pdfId chunkIndex voice rate w))) = Suc (length (execLog w))
     \<and> post_api_tts e pdfId chunkIndex voice rate (snd (post_api_tts e pdfId chunkIndex voice rate w))
         = (JsonTts url d True, snd (post_api_tts e pdfId chunkIndex voice rate w))"
  using tts_first_then_cached(1,3,4)[OF assms] by simp

theorem idempotent_cache_witness:
  "fst (post_api_tts (exampleEnv goodTool) (js ''abc'') (js ''0'') None None exampleWorld)
     = JsonTts (js ''/audio/abc_chunk_0_enUSAriaNeural.mp3'') 0 False
   \<and> length (execLog (snd (post_api_tts (exampleEnv goodTool) (js ''abc'') (js ''0'') None None
        exampleWorld))) = 1
   \<and> post_api_tts (exampleEnv goodTool) (js ''abc'') (js ''0'') None None
        (snd (post_api_tts (exampleEnv goodTool) (js ''abc'') (js ''0'') None None exampleWorld))
     = (JsonTts (js ''/audio/abc_chunk_0_enUSAriaNeural.mp3'') 0 True,
        snd (post_api_tts (exampleEnv goodTool) (js ''abc'') (js ''0'') None None exampleWorld))"
  using idempotent_cache[where rate = None, OF example_store example_chunk0 example_long
          example_absent example_first_response example_first_written]
        example_first_response[of None]
  by (simp add: exampleWorld_def)

text \<open>
  Claim C5. The name, path and URL of the artifact are functions of the document, the
  chunk index and the voice only. After a first request at one rate has produced the
  artifact, a request for the same document, chunk and voice at any other rate is
  answered from the cache, with the URL and the file of the first request, and nothing
  is synthesised.
\<close>

theorem cache_key_excludes_rate:
  assumes "pdfStore w pdfId = Some pdf"
    and "chunkAt (chunks pdf) (parseInt chunkIndex) = Some text"
    and "10 \<le> length text"
    and "files w (audioPath (AUDIO_DIR e) pdfId (parseInt chunkIndex) (voiceOrDefault voice)) = None"
    and "fst (post_api_tts e pdfId chunkIndex voice rateA w) = JsonTts url d cached"
    and "files (snd (post_api_tts e pdfId chunkIndex voice rateA w))
           (audioPath (AUDIO_DIR e) pdfId (parseInt chunkIndex) (voiceOrDefault voice)) \<noteq> None"
  shows "url = audioUrl pdfId (parseInt chunkIndex) (voiceOrDefault voice)
     \<and> post_api_tts e pdfId chunkIndex voice rateB (snd (post_api_tts e pdfId chunkIndex voice rateA w))
         = (JsonTts url d True, snd (post_api_tts e pdfId chunkIndex voice rateA w))"
  using tts_first_then_cached(2,4)[OF assms] by simp

theorem cache_key_excludes_rate_witness:
  "fst (post_api_tts (exampleEnv goodTool) (js ''abc'') (js ''0'') None (Some (js ''+0%'')) exampleWorld)
     = JsonTts (js ''/audio/abc_chunk_0_enUSAriaNeural.mp3'') 0 False
   \<and> post_api_tts (exampleEnv goodTool) (js ''abc'') (js ''0'') None (Some (js ''+20%''))
        (snd (post_api_tts (exampleEnv goodTool) (js ''abc'') (js ''0'') None (Some (js ''+0%'')) exampleWorld))
     = (JsonTts (js ''/audio/abc_chunk_0_enUSAriaNeural.mp3'') 0 True,
        snd (post_api_tts (exampleEnv goodTool) (js ''abc'') (js ''0'') None (Some (js ''+0%'')) exampleWorld))"
  using cache_key_excludes_rate[where rateA = "Some (js ''+0%'')" and rateB = "Some (js ''+20%'')",
          OF example_store example_chunk0 example_long example_absent
          example_first_response example_first_written]
        example_first_response[of "Some (js ''+0%'')"]
  by simp

section \<open>A failed synthesis\<close>

text \<open>
  Claim C4 says that no file exists at the path of the artifact after a failed
  synthesis. \<open>generateTTS\<close> unlinks its temporary file only: a tool that has created its
  output file before it fails, or is killed at the time-out, leaves that file where the
  cache looks for it, and the next request for the same key is answered with it as cached.
\<close>

theorem failed_synthesis_keeps_partial_file:
  "fst (post_api_tts (exampleEnv partialTool) (js ''abc'') (js ''0'') None None exampleWorld)
     = JsonThrown ExecError
   \<and> files (snd (post_api_tts (exampleEnv partialTool) (js ''abc'') (js ''0'') None None exampleWorld))
       (audioPath (js ''/srv/audio'') (js ''abc'') (Num 0) (js ''en-US-AriaNeural''))
     = Some (MediaFile [])
   \<and> fst (post_api_tts (exampleEnv partialTool) (js ''abc'') (js ''0'') None None
        (snd (post_api_tts (exampleEnv partialTool) (js ''abc'') (js ''0'') None None exampleWorld)))
     = JsonTts (js ''/audio/abc_chunk_0_enUSAriaNeural.mp3'') 0 True"
proof -
  let ?e = "exampleEnv partialTool"
  let ?w1 = "snd (post_api_tts ?e (js ''abc'') (js ''0'') None None exampleWorld)"
  let ?p = "audioPath (js ''/srv/audio'') (js ''abc'') (Num 0) (js ''en-US-AriaNeural'')"
  have r: "fst (post_api_tts ?e (js ''abc'') (js ''0'') None None exampleWorld) = JsonThrown ExecError"
    unfolding example_miss
    by (simp add: generateTTS_keeps exampleEnv_def partialTool_def)
  have f: "files ?w1 ?p = Some (MediaFile [])"
    unfolding example_miss using example_path_not_temp
    by (simp add: generateTTS_keeps voiceOrDefault_def exampleEnv_def partialTool_def ttsArgs_def
          exampleWorld_def)
  have s: "pdfStore ?w1 (js ''abc'') = Some exampleDoc"
    unfolding example_miss
    by (simp add: generateTTS_keeps exampleEnv_def partialTool_def example_store)
  have f': "files ?w1 (audioPath (AUDIO_DIR ?e) (js ''abc'') (parseInt (js ''0'')) (voiceOrDefault None)) \<noteq> None"
    using f by (simp add: example_parse0 voiceOrDefault_def exampleEnv_def)
  have "fst (post_api_tts ?e (js ''abc'') (js ''0'') None None ?w1)
     = JsonTts (js ''/audio/abc_chunk_0_enUSAriaNeural.mp3'') 0 True"
    unfolding tts_cached_call[OF s example_chunk0 example_long f'] example_parse0
    using f
    by (simp add: voiceOrDefault_def example_url getAudioDuration_def exampleEnv_def)
  with r f show ?thesis by simp
qed

text \<open>
  Claim C4, amended. When the speech tool fails and has itself left no file at the output
  path, the request is answered with the error, no file is at the path of the artifact
  or at that of the temporary file afterwards, and a later request for the same key is
  not answered from the cache.
\<close>

theorem failed_synthesis_no_artifact:
  assumes "pdfStore w pdfId = Some pdf"
    and "chunkAt (chunks pdf) (parseInt chunkIndex) = Some text"
    and "10 \<le> length text"
    and "files w (audioPath (AUDIO_DIR e) pdfId (parseInt chunkIndex) (voiceOrDefault voice)) = None"
    and "edge_tts e
           (ttsArgs (tempFileName (clock w))
              (audioPath (AUDIO_DIR e) pdfId (parseInt chunkIndex) (voiceOrDefault voice))
              (voiceOrDefault voice) (rateOrDefault rate))
           ((files w)(tempFileName (clock w) \<mapsto> TextFile text)) = (False, fs)"
    and "fs (audioPath (AUDIO_DIR e) pdfId (parseInt chunkIndex) (voiceOrDefault voice)) = None"
  shows "fst (post_api_tts e pdfId chunkIndex voice rate w) = JsonThrown ExecError
     \<and> files (snd (post_api_tts e pdfId chunkIndex voice rate w))
         (audioPath (AUDIO_DIR e) pdfId (parseInt chunkIndex) (voiceOrDefault voice)) = None
     \<and> files (snd (post_api_tts e pdfId chunkIndex voice rate w)) (tempFileName (clock w)) = None
     \<and> (\<forall>url d. fst (post_api_tts e pdfId chunkIndex voice rate
                        (snd (post_api_tts e pdfId chunkIndex voice rate w))) \<noteq> JsonTts url d True)"
proof -
  let ?index = "parseInt chunkIndex"
  let ?path = "audioPath (AUDIO_DIR e) pdfId ?index (voiceOrDefault voice)"
  let ?w1 = "snd (post_api_tts e pdfId chunkIndex voice rate w)"
  note miss = tts_miss_call[OF assms(1-4), of rate, unfolded Let_def]
  have r: "fst (post_api_tts e pdfId chunkIndex voice rate w) = JsonThrown ExecError"
    unfolding miss by (simp add: generateTTS_keeps assms(5))
  have w1: "?w1 = snd (generateTTS e text ?path (voiceOrDefault voice) (rateOrDefault rate)
                (missWorld pdfId ?index w))"
    unfolding miss by (simp add: generateTTS_keeps assms(5))
  have f: "files ?w1 ?path = None"
    unfolding w1 by (simp add: generateTTS_keeps assms(5,6))
  have t: "files ?w1 (tempFileName (clock w)) = None"
    unfolding w1 by (simp add: generateTTS_keeps)
  have s: "pdfStore ?w1 pdfId = Some pdf"
    unfolding w1 by (simp add: generateTTS_keeps assms(1))
  note miss2 = tts_miss_call[OF s assms(2,3) f, of rate, unfolded Let_def]
  have "fst (post_api_tts e pdfId chunkIndex voice rate ?w1) \<noteq> JsonTts url d True" for url d
    unfolding miss2 by (simp split: sum.split)
  with r f t show ?thesis by blast
qed

theorem failed_synthesis_no_artifact_witness:
  "fst (post_api_tts (exampleEnv failingTool) (js ''abc'') (js ''0'') None None exampleWorld)
     = JsonThrown ExecError
   \<and> files (snd (post_api_tts (exampleEnv failingTool) (js ''abc'') (js ''0'') None None exampleWorld))
       (audioPath (js ''/srv/audio'') (js ''abc'') (Num 0) (js ''en-US-AriaNeural'')) = None
   \<and> fst (post_api_tts (exampleEnv failingTool) (js ''abc'') (js ''0'') None None
        (snd (post_api_tts (exampleEnv failingTool) (js ''abc'') (js ''0'') None None exampleWorld)))
     \<noteq> JsonTts (js ''/audio/abc_chunk_0_enUSAriaNeural.mp3'') 0 True"
proof -
  let ?e = "exampleEnv failingTool"
  let ?path = "audioPath (AUDIO_DIR ?e) (js ''abc'') (parseInt (js ''0'')) (voiceOrDefault None)"
  have h5: "edge_tts ?e
           (ttsArgs (tempFileName (clock exampleWorld)) ?path (voiceOrDefault None) (rateOrDefault None))
           ((files exampleWorld)(tempFileName (clock exampleWorld) \<mapsto> TextFile (js ''Hello world. This is a test.'')))
         = (False, (files exampleWorld)(tempFileName (clock exampleWorld) \<mapsto> TextFile (js ''Hello world. This is a test.'')))"
    by (simp add: exampleEnv_def failingTool_def)
  have h6: "((files exampleWorld)(tempFileName (clock exampleWorld) \<mapsto> TextFile (js ''Hello world. This is a test.''))) ?path = None"
    using example_path_not_temp
    by (simp add: exampleWorld_def exampleEnv_def example_parse0 voiceOrDefault_def)
  from failed_synthesis_no_artifact[OF example_store example_chunk0 example_long example_absent h5 h6]
  show ?thesis
    by (simp add: exampleEnv_def example_parse0 voiceOrDefault_def)
qed

section \<open>Guards\<close>

text \<open>
  Claim C10. For an existing document, a chunk index for which \<^verbatim>\<open>parseInt\<close> gives
  \<^verbatim>\<open>NaN\<close> passes the range guard of both routes: the \<^verbatim>\<open>GET\<close> route answers with the
  index and an undefined text, the \<^verbatim>\<open>POST\<close> route reads the length of the undefined
  chunk and answers with what was thrown; neither answers with the invalid-index error.
\<close>

theorem nan_index_passes_guard:
  assumes "pdfStore w pdfId = Some pdf" and "parseInt chunkIndex = NaN"
  shows "get_api_pdf_chunk pdfId chunkIndex w = JsonChunk NaN None (length (chunks pdf))
     \<and> post_api_tts e pdfId chunkIndex voice rate w = (JsonThrown TypeError, w)"
  using assms by (simp add: get_api_pdf_chunk_def post_api_tts_def)

theorem nan_index_passes_guard_witness:
  "parseInt (js ''abc'') = NaN
   \<and> get_api_pdf_chunk (js ''abc'') (js ''abc'') exampleWorld = JsonChunk NaN None 2
   \<and> post_api_tts (exampleEnv goodTool) (js ''abc'') (js ''abc'') None None exampleWorld
       = (JsonThrown TypeError, exampleWorld)"
proof -
  have h: "parseInt (js ''abc'') = NaN"
    by (simp add: parseInt_def js_def isSpace_def isDigit_def)
  from nan_index_passes_guard[OF example_store h] h show ?thesis
    by (simp add: exampleDoc_def)
qed

text \<open>
  Claim C9. A chunk shorter than 10 code units and an ad-hoc text that is missing or
  shorter than 2 code units are rejected with status 400 and the world is left as it is
  (the tool is not run); an ad-hoc text of 2 or more code units runs the tool once.
\<close>

theorem too_short_rejected:
  "(pdfStore w pdfId = Some pdf \<and> chunkAt (chunks pdf) (parseInt chunkIndex) = Some chunk
      \<and> length chunk < 10
    \<longrightarrow> post_api_tts e pdfId chunkIndex voice rate w = (JsonError 400 (js ''Chunk too short''), w))
   \<and> post_api_tts_custom e None voice rate w = (JsonError 400 (js ''Text required''), w)
   \<and> (length t < 2
    \<longrightarrow> post_api_tts_custom e (Some t) voice rate w = (JsonError 400 (js ''Text required''), w))
   \<and> (2 \<le> length t
    \<longrightarrow> execLog (snd (post_api_tts_custom e (Some t) voice rate w))
        = execLog w @ [ttsArgs (tempFileName (clock w))
             (path_join (AUDIO_DIR e) (js ''custom_'' @ decimal (clock w) @ js ''.mp3''))
             (voiceOrDefault voice) (rateOrDefault rate)])"
proof -
  have a: "post_api_tts e pdfId chunkIndex voice rate w = (JsonError 400 (js ''Chunk too short''), w)"
    if "pdfStore w pdfId = Some pdf" "chunkAt (chunks pdf) (parseInt chunkIndex) = Some chunk"
       "length chunk < 10"
    using that chunkAt_Some[OF that(2)]
    unfolding post_api_tts_def Let_def by (simp del: numLess.simps numGreaterEq.simps)
  have b: "post_api_tts_custom e None voice rate w = (JsonError 400 (js ''Text required''), w)"
    by (simp add: post_api_tts_custom_def)
  have c: "post_api_tts_custom e (Some t) voice rate w = (JsonError 400 (js ''Text required''), w)"
    if "length t < 2"
    using that by (simp add: post_api_tts_custom_def)
  have d: "execLog (snd (post_api_tts_custom e (Some t) voice rate w))
        = execLog w @ [ttsArgs (tempFileName (clock w))
             (path_join (AUDIO_DIR e) (js ''custom_'' @ decimal (clock w) @ js ''.mp3''))
             (voiceOrDefault voice) (rateOrDefault rate)]"
    if "2 \<le> length t"
  proof -
    from that have "t \<noteq> []" "\<not> length t < 2" by auto
    then show ?thesis
      by (simp add: post_api_tts_custom_def Let_def generateTTS_keeps split: sum.split)
  qed
  from a b c d show ?thesis by blast
qed

theorem too_short_rejected_witness:
  "post_api_tts (exampleEnv goodTool) (js ''abc'') (js ''1'') None None exampleWorld
     = (JsonError 400 (js ''Chunk too short''), exampleWorld)
   \<and> post_api_tts_custom (exampleEnv goodTool) (Some (js ''a'')) None None exampleWorld
     = (JsonError 400 (js ''Text required''), exampleWorld)
   \<and> length (execLog (snd (post_api_tts_custom (exampleEnv goodTool) (Some (js ''ab'')) None None
        exampleWorld))) = 1"
proof -
  have h1: "chunkAt (chunks exampleDoc) (parseInt (js ''1'')) = Some (js ''Bye.'')"
    by (simp add: parseInt_def js_def isSpace_def isDigit_def digitValue_def exampleDoc_def)
  have h2: "length (js ''Bye.'') < 10" "length (js ''a'') < 2" "2 \<le> length (js ''ab'')"
    by (simp_all add: js_def)
  have e: "execLog exampleWorld = []" by (simp add: exampleWorld_def)
  from too_short_rejected[of exampleWorld "js ''abc''" exampleDoc "js ''1''" "js ''Bye.''"
         "exampleEnv goodTool" None None "js ''a''"]
       too_short_rejected[of exampleWorld "js ''abc''" exampleDoc "js ''1''" "js ''Bye.''"
         "exampleEnv goodTool" None None "js ''ab''"]
       example_store h1 h2 e
  show ?thesis by simp
qed

section \<open>The name of an artifact\<close>

lemma digitChar_range: "d < 10 \<Longrightarrow> isDigit (digitChar d)"
proof -
  assume "d < 10"
  then have "d \<in> {0, 1, 2, 3, 4, 5, 6, 7, 8, 9}" by auto
  then show ?thesis by (auto simp: digitChar_def isDigit_def)
qed

lemma digitChar_unat: "d < 10 \<Longrightarrow> unat (digitChar d) - 48 = d"
proof -
  assume "d < 10"
  then have "d \<in> {0, 1, 2, 3, 4, 5, 6, 7, 8, 9}" by auto
  then show ?thesis by (auto simp: digitChar_def)
qed

lemma decimal_digits: "c \<in> set (decimal n) \<Longrightarrow> isDigit c"
proof (induction n arbitrary: c rule: decimal.induct)
  case (1 n)
  show ?case
  proof (cases "n < 10")
    case True
    with "1.prems" show ?thesis by (simp add: decimal.simps[of n] digitChar_range)
  next
    case False
    have "decimal n = decimal (n div 10) @ [digitChar (n mod 10)]"
      using False by (subst decimal.simps) simp
    with "1.prems" have "c \<in> set (decimal (n div 10)) \<or> c = digitChar (n mod 10)"
      by auto
    with "1.IH"[OF False] show ?thesis by (auto simp: digitChar_range)
  qed
qed

lemma decimal_nonempty: "decimal n \<noteq> []"
  by (simp add: decimal.simps[of n])

lemma decimal_value: "foldl (\<lambda>a c. a * 10 + (unat c - 48)) 0 (decimal n) = n"
proof (induction n rule: decimal.induct)
  case (1 n)
  show ?case
  proof (cases "n < 10")
    case True
    then show ?thesis by (simp add: decimal.simps[of n] digitChar_unat)
  next
    case False
    with "1.IH" show ?thesis by (simp add: decimal.simps[of n] digitChar_unat)
  qed
qed

lemma decimal_inj: "decimal n = decimal m \<Longrightarrow> n = m"
  by (metis decimal_value)

lemma digit_facts: "isDigit c \<Longrightarrow> c \<noteq> 0x5F \<and> c \<noteq> 0x2D \<and> c \<noteq> 0x4E"
  by (auto simp: isDigit_def)

lemma decimal_hd: "isDigit (hd (decimal n))"
  using decimal_digits[of "hd (decimal n)" n] decimal_nonempty[of n] by simp

lemma numToString_not_NaN: "numToString (Num i) = [0x4E, 0x61, 0x4E] \<Longrightarrow> False"
proof (cases "i < 0")
  case True
  assume "numToString (Num i) = [0x4E, 0x61, 0x4E]"
  with True show False by simp
next
  case False
  assume "numToString (Num i) = [0x4E, 0x61, 0x4E]"
  with False have "decimal (nat i) = [0x4E, 0x61, 0x4E]" by simp
  then have "hd (decimal (nat i)) = 0x4E" by simp
  with decimal_hd[of "nat i"] show False by (auto dest: digit_facts)
qed

lemma numToString_inj: "numToString a = numToString b \<Longrightarrow> a = b"
proof (cases a; cases b)
  fix i j
  assume ab: "a = Num i" "b = Num j" and eq: "numToString a = numToString b"
  show "a = b"
  proof (cases "i < 0"; cases "j < 0")
    assume "i < 0" "j < 0"
    with ab eq have "decimal (nat (- i)) = decimal (nat (- j))" by simp
    then have "nat (- i) = nat (- j)" by (rule decimal_inj)
    with \<open>i < 0\<close> \<open>j < 0\<close> ab show ?thesis by simp
  next
    assume "i < 0" "\<not> j < 0"
    with ab eq have "hd (decimal (nat j)) = 0x2D" by (metis numToString.simps(2) list.sel(1))
    with decimal_hd[of "nat j"] show ?thesis by (auto dest: digit_facts)
  next
    assume "\<not> i < 0" "j < 0"
    with ab eq have "hd (decimal (nat i)) = 0x2D" by (metis numToString.simps(2) list.sel(1))
    with decimal_hd[of "nat i"] show ?thesis by (auto dest: digit_facts)
  next
    assume "\<not> i < 0" "\<not> j < 0"
    with ab eq have "decimal (nat i) = decimal (nat j)" by simp
    then have "nat i = nat j" by (rule decimal_inj)
    with \<open>\<not> i < 0\<close> \<open>\<not> j < 0\<close> ab show ?thesis by simp
  qed
next
  fix j
  assume ab: "a = NaN" "b = Num j" and eq: "numToString a = numToString b"
  then have "numToString (Num j) = [0x4E, 0x61, 0x4E]" by (simp add: js_def)
  then have False by (rule numToString_not_NaN)
  then show "a = b" ..
next
  fix i
  assume ab: "a = Num i" "b = NaN" and eq: "numToString a = numToString b"
  then have "numToString (Num i) = [0x4E, 0x61, 0x4E]" by (simp add: js_def)
  then have False by (rule numToString_not_NaN)
  then show "a = b" ..
qed simp

lemma numToString_no_underscore: "0x5F \<notin> set (numToString a)"
proof (cases a)
  case NaN
  then show ?thesis by (simp add: js_def)
next
  case (Num i)
  then show ?thesis by (auto dest!: decimal_digits digit_facts)
qed

lemma sanitized_no_underscore: "0x5F \<notin> set (filter isAlnum v)"
  by (simp add: isAlnum_def)

lemma takeWhile_upto:
  "c \<notin> set p \<Longrightarrow> takeWhile (\<lambda>x. x \<noteq> c) (p @ c # q) = p"
  by (induction p) auto

lemma split_at_last:
  assumes "xs @ c # ys = xs' @ c # ys'" and "c \<notin> set ys" and "c \<notin> set ys'"
  shows "xs = xs' \<and> ys = ys'"
proof -
  from assms(1) have "rev (xs @ c # ys) = rev (xs' @ c # ys')" by simp
  then have eq: "rev ys @ c # rev xs = rev ys' @ c # rev xs'" by simp
  have "takeWhile (\<lambda>x. x \<noteq> c) (rev ys @ c # rev xs) = rev ys"
    using assms(2) by (intro takeWhile_upto) simp
  moreover have "takeWhile (\<lambda>x. x \<noteq> c) (rev ys' @ c # rev xs') = rev ys'"
    using assms(3) by (intro takeWhile_upto) simp
  ultimately have "rev ys = rev ys'" using eq by simp
  with eq show ?thesis by simp
qed

lemma audioFilename_eq_iff:
  "audioFilename pdfId index voice = audioFilename pdfId' index' voice'
     \<longleftrightarrow> pdfId = pdfId' \<and> index = index' \<and> filter isAlnum voice = filter isAlnum voice'"
proof
  assume eq: "audioFilename pdfId index voice = audioFilename pdfId' index' voice'"
  have u: "js ''_'' = [0x5F]" "js ''_chunk_'' = js ''_chunk'' @ [0x5F]" by (simp_all add: js_def)
  from eq have "(pdfId @ js ''_chunk'' @ 0x5F # numToString index) @ 0x5F # filter isAlnum voice
      = (pdfId' @ js ''_chunk'' @ 0x5F # numToString index') @ 0x5F # filter isAlnum voice'"
    by (simp add: audioFilename_def u)
  from split_at_last[OF this sanitized_no_underscore sanitized_no_underscore]
  have v: "filter isAlnum voice = filter isAlnum voice'"
    and "(pdfId @ js ''_chunk'') @ 0x5F # numToString index
       = (pdfId' @ js ''_chunk'') @ 0x5F # numToString index'" by simp_all
  from split_at_last[OF this(2) numToString_no_underscore numToString_no_underscore]
  have "pdfId = pdfId'" and "numToString index = numToString index'" by simp_all
  with v show "pdfId = pdfId' \<and> index = index' \<and> filter isAlnum voice = filter isAlnum voice'"
    by (auto dest: numToString_inj)
next
  assume "pdfId = pdfId' \<and> index = index' \<and> filter isAlnum voice = filter isAlnum voice'"
  then show "audioFilename pdfId index voice = audioFilename pdfId' index' voice'"
    by (simp add: audioFilename_def)
qed


text \<open>
  Claim C7 says that distinct triples of document, chunk index and voice get distinct
  paths. The voice enters the name without the code units outside \<^verbatim>\<open>[a-zA-Z0-9]\<close>, so
  two voices that differ in such code units only get the same path.
\<close>

theorem keyToPath_collision:
  "(js ''abc'', Num 0, js ''en-US-AriaNeural'') \<noteq> (js ''abc'', Num 0, js ''enUSAriaNeural'')
   \<and> audioPath (js ''/srv/audio'') (js ''abc'') (Num 0) (js ''en-US-AriaNeural'')
     = audioPath (js ''/srv/audio'') (js ''abc'') (Num 0) (js ''enUSAriaNeural'')"
  by (simp add: audioPath_def audioFilename_def js_def isAlnum_def)

text \<open>
  Claim C7, amended. The file name and the URL of an artifact are functions of the
  document, the chunk index and the voice, and two triples get the same file name (the
  same URL) exactly when they have the same document, the same chunk index and voices
  that are equal once sanitised. The same holds of the path in the audio directory for
  document identifiers that hold no \<^verbatim>\<open>/\<close>, for which the file name is one path segment.
\<close>

theorem keyToPath_injective_up_to_sanitizing:
  "(audioFilename pdfId index voice = audioFilename pdfId' index' voice'
      \<longleftrightarrow> pdfId = pdfId' \<and> index = index' \<and> filter isAlnum voice = filter isAlnum voice')
   \<and> (audioUrl pdfId index voice = audioUrl pdfId' index' voice'
      \<longleftrightarrow> pdfId = pdfId' \<and> index = index' \<and> filter isAlnum voice = filter isAlnum voice')
   \<and> (0x2F \<notin> set pdfId \<and> 0x2F \<notin> set pdfId'
      \<longrightarrow> (audioPath dir pdfId index voice = audioPath dir pdfId' index' voice'
           \<longleftrightarrow> pdfId = pdfId' \<and> index = index'
                \<and> filter isAlnum voice = filter isAlnum voice'))"
  by (simp add: audioPath_def path_join_def audioUrl_def audioFilename_eq_iff)

theorem keyToPath_injective_up_to_sanitizing_witness:
  "0x2F \<notin> set (js ''abc'') \<and> 0x2F \<notin> set (js ''abd'')
   \<and> audioPath (js ''/srv/audio'') (js ''abc'') (Num 0) (js ''en-US-AriaNeural'')
     \<noteq> audioPath (js ''/srv/audio'') (js ''abc'') (Num 0) (js ''en-GB-SoniaNeural'')
   \<and> audioPath (js ''/srv/audio'') (js ''abc'') (Num 0) (js ''en-US-AriaNeural'')
     \<noteq> audioPath (js ''/srv/audio'') (js ''abc'') (Num 1) (js ''en-US-AriaNeural'')
   \<and> audioPath (js ''/srv/audio'') (js ''abc'') (Num 0) (js ''en-US-AriaNeural'')
     \<noteq> audioPath (js ''/srv/audio'') (js ''abd'') (Num 0) (js ''en-US-AriaNeural'')
   \<and> audioUrl (js ''abc'') (Num 0) (js ''en-US-AriaNeural'')
     \<noteq> audioUrl (js ''abc'') (Num 0) (js ''en-GB-SoniaNeural'')
   \<and> audioFilename (js ''abc'') (Num 0) (js ''en-US-AriaNeural'')
     \<noteq> audioFilename (js ''abc'') (Num 1) (js ''en-US-AriaNeural'')"
proof -
  have h: "0x2F \<notin> set (js ''abc'')" "0x2F \<notin> set (js ''abd'')"
    by (simp_all add: js_def)
  from h
    keyToPath_injective_up_to_sanitizing[of "js ''abc''" "Num 0" "js ''en-US-AriaNeural''"
      "js ''abc''" "Num 0" "js ''en-GB-SoniaNeural''" "js ''/srv/audio''"]
    keyToPath_injective_up_to_sanitizing[of "js ''abc''" "Num 0" "js ''en-US-AriaNeural''"
      "js ''abc''" "Num 1" "js ''en-US-AriaNeural''" "js ''/srv/audio''"]
    keyToPath_injective_up_to_sanitizing[of "js ''abc''" "Num 0" "js ''en-US-AriaNeural''"
      "js ''abd''" "Num 0" "js ''en-US-AriaNeural''" "js ''/srv/audio''"]
  show ?thesis by (simp add: js_def isAlnum_def)
qed

end
